theory Spec2Isabelle
  imports Complex_Main
begin

section \<open>Data model of powerdetector.py\<close>

text \<open>
  Python integers are unbounded and are modelled as \<open>int\<close>. Voltages, poll periods and
  clock readings are Python floats; they are idealised as \<open>real\<close>, so rounding and the
  special values of floats are outside the model. Of these numbers only the outcome of
  the comparisons \<open>adcValVolts < alarmMinVoltage\<close> and \<open>time.time() > nextInfoTrigger\<close>
  enters the control flow. The calls of \<open>logger\<close> only write to the log and are left out.
\<close>

subsection \<open>Severities of the \<open>logging\<close> module\<close>

definition NOTSET :: int where "NOTSET = 0"
definition DEBUG :: int where "DEBUG = 10"
definition INFO :: int where "INFO = 20"
definition WARNING :: int where "WARNING = 30"
definition ERROR :: int where "ERROR = 40"
definition CRITICAL :: int where "CRITICAL = 50"

subsection \<open>\<open>class AlarmState(Enum)\<close>, lines 29--32\<close>

datatype AlarmState = OK | ALARMING_VOLTAGE | ALARM

subsection \<open>The alarm handlers, lines 45--104\<close>

text \<open>
  The two concrete handler classes with the fields their constructors store. The base
  class \<open>AlarmHandler\<close> is never instantiated.
\<close>

datatype AlarmHandler =
    BuzzerAlarmHandler (pin: int) (duration: int)
  | EMailAlarmHandler (emailUsername: string) (emailPassword: string) (emailDestination: string)

text \<open>
  The two messages \<open>monitor\<close> formats: the start-up text of line 107 and the status text
  of lines 132 and 143. A message is kept as the tuple of values it is formatted from.
\<close>

datatype message =
    StartupMsg int real real int
  | StatusMsg AlarmState int int real int

text \<open>
  The exceptions that can end \<open>monitor\<close>: one raised by a \<open>wiringpi\<close> call in
  \<open>BuzzerAlarmHandler.trigger\<close>, which has no \<open>try\<close> block, and the \<open>ValueError\<close> of
  \<open>time.sleep\<close> for a negative duration.
\<close>

datatype error = WiringPiError | ValueError

text \<open>What a call of \<open>trigger\<close> did when it returned normally.\<close>

datatype outcome = SirenSounded | BuzzerIdle | EMailSent | EMailFailureLogged

text \<open>The observable actions of \<open>monitor\<close>: \<open>time.sleep\<close> and the handler calls that returned.\<close>

datatype event = Slept real | Triggered AlarmHandler message int outcome

text \<open>
  The environment of one dispatch: \<open>raises h severity\<close> says whether the external call
  (\<open>wiringpi\<close> for the buzzer, \<open>smtplib\<close> for the e-mail) made by handler \<open>h\<close> raises.
\<close>

type_synonym io = "AlarmHandler \<Rightarrow> int \<Rightarrow> bool"

type_synonym failure = "error \<times> event list"

text \<open>
  \<open>trigger\<close>, lines 54--65 and 84--104. The buzzer acts only on severities from \<open>ERROR\<close>
  up and lets an exception of \<open>wiringpi\<close> escape; the e-mail handler wraps its whole body
  in \<open>try ... except Exception\<close> and logs the failure.
\<close>

fun trigger :: "io \<Rightarrow> AlarmHandler \<Rightarrow> message \<Rightarrow> int \<Rightarrow> error + outcome" where
  "trigger raises (BuzzerAlarmHandler p d) msg severity =
     (if severity \<ge> ERROR then
        (if raises (BuzzerAlarmHandler p d) severity then Inl WiringPiError
         else Inr SirenSounded)
      else Inr BuzzerIdle)"
| "trigger raises (EMailAlarmHandler u pw dst) msg severity =
     (if raises (EMailAlarmHandler u pw dst) severity then Inr EMailFailureLogged
      else Inr EMailSent)"

text \<open>
  The loop \<open>for handler in alarmHandlers: handler.trigger(msg, severity)\<close> of lines
  108--109, 142--144 and 160--161. An exception of one handler ends the loop (and, as
  \<open>monitor\<close> has no \<open>try\<close> block either, the whole of \<open>monitor\<close>); the failure carries
  the events that happened before it.
\<close>

fun dispatch :: "io \<Rightarrow> AlarmHandler list \<Rightarrow> message \<Rightarrow> int \<Rightarrow> event list \<Rightarrow> failure + event list" where
  "dispatch raises [] msg severity tr = Inr tr"
| "dispatch raises (h # hs) msg severity tr =
     (case trigger raises h msg severity of
        Inl e \<Rightarrow> Inl (e, tr)
      | Inr out \<Rightarrow> dispatch raises hs msg severity (tr @ [Triggered h msg severity out]))"

subsection \<open>The parameters and the local variables of \<open>monitor\<close>\<close>

record monitor_config =
  adcNumber :: int
  readPeriodState :: real
  alarmMinVoltage :: real
  alarmNTriggers :: int
  alarmHandlers :: "AlarmHandler list"
  infoPeriod :: int

record monitor_state =
  numberOfAlarmsLeftToTrigger :: int
  alarmState :: AlarmState
  readPeriod :: real
  nextInfoTrigger :: real
  trace :: "event list"

text \<open>
  What one pass of the loop reads from outside: the raw sample of \<open>wpi.analogRead\<close>
  (line 130), the behaviour of the handlers' external calls during this pass, and the two
  readings of \<open>time.time()\<close> of lines 159 and 162.
\<close>

record cycle_input =
  adcVal :: int
  raises :: io
  clock_check :: real
  clock_set :: real

section \<open>\<open>monitor\<close>, lines 106--163\<close>

text \<open>Lines 111--112 and 131.\<close>

definition ADC_SCALE_TO_V :: real where
  "ADC_SCALE_TO_V = 1.8 / 1023"

definition adcValVolts :: "int \<Rightarrow> real" where
  "adcValVolts v = of_int v * ADC_SCALE_TO_V"

text \<open>
  Lines 134--156: the update of \<open>alarmState\<close>, \<open>numberOfAlarmsLeftToTrigger\<close> and
  \<open>readPeriod\<close>. The second component is the message and severity that the loop of lines
  142--144 hands to every handler, present exactly in the branch of line 140.
\<close>

definition check_voltage ::
  "monitor_config \<Rightarrow> int \<Rightarrow> monitor_state \<Rightarrow> monitor_state \<times> (message \<times> int) option" where
  "check_voltage cfg v s =
     (if alarmState s = OK then
        (if adcValVolts v < alarmMinVoltage cfg then
           (let n = numberOfAlarmsLeftToTrigger s - 1;
                s1 = s\<lparr>readPeriod := 1, numberOfAlarmsLeftToTrigger := n\<rparr>
            in if n < 1 then
                 (s1\<lparr>alarmState := ALARM\<rparr>,
                  Some (StatusMsg ALARM (adcNumber cfg) v (adcValVolts v) n, CRITICAL))
               else (s1, None))
         else (s\<lparr>numberOfAlarmsLeftToTrigger := alarmNTriggers cfg\<rparr>, None))
      else
        (if adcValVolts v < alarmMinVoltage cfg then
           (s\<lparr>numberOfAlarmsLeftToTrigger := 0\<rparr>, None)
         else
           (let n = numberOfAlarmsLeftToTrigger s + 1;
                s1 = s\<lparr>numberOfAlarmsLeftToTrigger := n\<rparr>
            in if n \<ge> alarmNTriggers cfg then (s1\<lparr>alarmState := OK\<rparr>, None)
               else (s1, None))))"

text \<open>Lines 128--129: sleep for the current period, then reset it to the steady value.\<close>

definition sleep_and_reset :: "monitor_config \<Rightarrow> monitor_state \<Rightarrow> monitor_state" where
  "sleep_and_reset cfg s =
     s\<lparr>trace := trace s @ [Slept (readPeriod s)], readPeriod := readPeriodState cfg\<rparr>"

text \<open>
  Lines 142--144: the request of \<open>check_voltage\<close>, if any, goes to every handler.
\<close>

definition alarm_dispatch ::
  "monitor_config \<Rightarrow> io \<Rightarrow> (message \<times> int) option \<Rightarrow> monitor_state \<Rightarrow> failure + monitor_state" where
  "alarm_dispatch cfg rs req s =
     (case req of
        None \<Rightarrow> Inr s
      | Some (msg, severity) \<Rightarrow>
          (case dispatch rs (alarmHandlers cfg) msg severity (trace s) of
             Inl e \<Rightarrow> Inl e
           | Inr tr \<Rightarrow> Inr (s\<lparr>trace := tr\<rparr>)))"

text \<open>
  The value of the local \<open>statusMsg\<close> at line 159: the text of line 132, unless the loop of
  lines 142--144 ran at least once and overwrote it.
\<close>

definition status_message ::
  "monitor_config \<Rightarrow> int \<Rightarrow> monitor_state \<Rightarrow> (message \<times> int) option \<Rightarrow> message" where
  "status_message cfg v s req =
     (case req of
        Some (msg, severity) \<Rightarrow>
          (if alarmHandlers cfg = [] then
             StatusMsg (alarmState s) (adcNumber cfg) v (adcValVolts v) (numberOfAlarmsLeftToTrigger s)
           else msg)
      | None \<Rightarrow>
          StatusMsg (alarmState s) (adcNumber cfg) v (adcValVolts v) (numberOfAlarmsLeftToTrigger s))"

text \<open>Lines 158--163: the information alarm.\<close>

definition info_check ::
  "monitor_config \<Rightarrow> cycle_input \<Rightarrow> message \<Rightarrow> monitor_state \<Rightarrow> failure + monitor_state" where
  "info_check cfg inp statusMsg s =
     (if clock_check inp > nextInfoTrigger s then
        (case dispatch (raises inp) (alarmHandlers cfg) statusMsg INFO (trace s) of
           Inl e \<Rightarrow> Inl e
         | Inr tr \<Rightarrow>
             Inr (s\<lparr>trace := tr, nextInfoTrigger := clock_set inp + of_int (infoPeriod cfg)\<rparr>))
      else Inr s)"

text \<open>
  Lines 128--163: one pass of the body of \<open>while True\<close>. \<open>time.sleep\<close> raises for a
  negative period, which ends \<open>monitor\<close>.
\<close>

definition monitor_cycle ::
  "monitor_config \<Rightarrow> cycle_input \<Rightarrow> monitor_state \<Rightarrow> failure + monitor_state" where
  "monitor_cycle cfg inp s =
     (if readPeriod s < 0 then Inl (ValueError, trace s)
      else
        (let s0 = sleep_and_reset cfg s;
             (s1, req) = check_voltage cfg (adcVal inp) s0
         in case alarm_dispatch cfg (raises inp) req s1 of
              Inl e \<Rightarrow> Inl e
            | Inr s2 \<Rightarrow> info_check cfg inp (status_message cfg (adcVal inp) s0 req) s2))"

text \<open>
  Lines 107--125: the start-up notification and the initial values of the locals;
  \<open>now\<close> is the reading of \<open>time.time()\<close> of line 124.
\<close>

definition monitor_init :: "monitor_config \<Rightarrow> io \<Rightarrow> real \<Rightarrow> failure + monitor_state" where
  "monitor_init cfg rs now =
     (case dispatch rs (alarmHandlers cfg)
             (StartupMsg (adcNumber cfg) (readPeriodState cfg) (alarmMinVoltage cfg)
                (alarmNTriggers cfg)) INFO [] of
        Inl e \<Rightarrow> Inl e
      | Inr tr \<Rightarrow>
          Inr \<lparr>numberOfAlarmsLeftToTrigger = alarmNTriggers cfg, alarmState = OK,
               readPeriod = readPeriodState cfg,
               nextInfoTrigger = now + of_int (infoPeriod cfg), trace = tr\<rparr>)"

text \<open>
  The loop never ends by itself. \<open>monitor_loop\<close> runs it for the passes whose inputs are
  given: the result is the state after the last of them, or the exception that ended
  \<open>monitor\<close> on the way.
\<close>

fun monitor_loop ::
  "monitor_config \<Rightarrow> cycle_input list \<Rightarrow> monitor_state \<Rightarrow> failure + monitor_state" where
  "monitor_loop cfg [] s = Inr s"
| "monitor_loop cfg (inp # inps) s =
     (case monitor_cycle cfg inp s of
        Inl e \<Rightarrow> Inl e
      | Inr s' \<Rightarrow> monitor_loop cfg inps s')"

definition monitor ::
  "monitor_config \<Rightarrow> io \<Rightarrow> real \<Rightarrow> cycle_input list \<Rightarrow> failure + monitor_state" where
  "monitor cfg rs now inps =
     (case monitor_init cfg rs now of
        Inl e \<Rightarrow> Inl e
      | Inr s \<Rightarrow> monitor_loop cfg inps s)"

section \<open>The start-up code, lines 166--189\<close>

record args =
  adc :: int
  period :: real
  alarm_min :: real
  alarm_tri :: int
  email_user :: string
  email_pass :: string
  email_dest :: string
  info_period :: int
  buzzer_pin :: int
  buzzer_duration :: int

text \<open>Lines 180--182: the local \<open>alarmNTriggers\<close> of the start-up code.\<close>

definition main_alarmNTriggers :: "args \<Rightarrow> int" where
  "main_alarmNTriggers a = (if alarm_tri a > 1 then alarm_tri a else 1)"

text \<open>
  Lines 187--189: the arguments of the call of \<open>monitor\<close>. The fourth one is
  \<open>args.alarm_tri\<close>, not the local of lines 180--182. No line of the start-up code raises
  or exits: every parsed argument set reaches the call.
\<close>

definition main :: "args \<Rightarrow> monitor_config" where
  "main a =
     \<lparr>adcNumber = adc a, readPeriodState = period a, alarmMinVoltage = alarm_min a,
      alarmNTriggers = alarm_tri a,
      alarmHandlers =
        [EMailAlarmHandler (email_user a) (email_pass a) (email_dest a),
         BuzzerAlarmHandler (buzzer_pin a) (buzzer_duration a)],
      infoPeriod = info_period a\<rparr>"

section \<open>Observations on runs\<close>

text \<open>
  The handler calls of one severity in a list of events, in order: which handler was
  called, and with which message.
\<close>

fun calls_at :: "int \<Rightarrow> event list \<Rightarrow> (AlarmHandler \<times> message) list" where
  "calls_at sev [] = []"
| "calls_at sev (Slept d # evs) = calls_at sev evs"
| "calls_at sev (Triggered h m sv out # evs) =
     (if sv = sev then (h, m) # calls_at sev evs else calls_at sev evs)"



text \<open>The events that the passes leading from state \<open>s\<close> to state \<open>s'\<close> added.\<close>

definition new_events :: "monitor_state \<Rightarrow> monitor_state \<Rightarrow> event list" where
  "new_events s s' = drop (length (trace s)) (trace s')"

text \<open>
  The calls of severity \<open>sv\<close> that lines 142--144 and lines 160--161 make in a pass that
  starts in state \<open>s\<close>.
\<close>

definition alarm_calls ::
  "monitor_config \<Rightarrow> cycle_input \<Rightarrow> monitor_state \<Rightarrow> int \<Rightarrow> (AlarmHandler \<times> message) list" where
  "alarm_calls cfg inp s sv =
     (case snd (check_voltage cfg (adcVal inp) s) of
        None \<Rightarrow> []
      | Some (msg, severity) \<Rightarrow>
          if sv = severity then map (\<lambda>h. (h, msg)) (alarmHandlers cfg) else [])"

definition info_calls ::
  "monitor_config \<Rightarrow> cycle_input \<Rightarrow> monitor_state \<Rightarrow> int \<Rightarrow> (AlarmHandler \<times> message) list" where
  "info_calls cfg inp s sv =
     (if sv = INFO \<and> clock_check inp > nextInfoTrigger s
      then map (\<lambda>h. (h, status_message cfg (adcVal inp) (sleep_and_reset cfg s)
                          (snd (check_voltage cfg (adcVal inp) s)))) (alarmHandlers cfg)
      else [])"

text \<open>
  The range of the counter in each state: from 1 to the trigger count while \<open>OK\<close>, from 0
  to one below the trigger count otherwise.
\<close>

definition counter_inv :: "monitor_config \<Rightarrow> monitor_state \<Rightarrow> bool" where
  "counter_inv cfg s =
     (if alarmState s = OK
      then 1 \<le> numberOfAlarmsLeftToTrigger s \<and>
           numberOfAlarmsLeftToTrigger s \<le> alarmNTriggers cfg
      else 0 \<le> numberOfAlarmsLeftToTrigger s \<and>
           numberOfAlarmsLeftToTrigger s < alarmNTriggers cfg)"

subsection \<open>Concrete runs\<close>

text \<open>
  The defaults of the argument parser (lines 168--177), with placeholder credentials for
  the three required arguments.
\<close>

definition default_args :: args where
  "default_args =
     \<lparr>adc = 1, period = 2, alarm_min = 0.7, alarm_tri = 1,
      email_user = ''user'', email_pass = ''pass'', email_dest = ''dest'',
      info_period = 43200, buzzer_pin = 27, buzzer_duration = 30\<rparr>"

text \<open>An environment in which no external call raises, and one in which the buzzer's do.\<close>

definition quiet :: io where
  "quiet h severity = False"

definition buzzer_broken :: io where
  "buzzer_broken h severity =
     (case h of BuzzerAlarmHandler p d \<Rightarrow> True | EMailAlarmHandler u pw dst \<Rightarrow> False)"

text \<open>A pass that reads raw sample \<open>v\<close> at clock reading \<open>t\<close>, with no failing call.\<close>

definition sample :: "int \<Rightarrow> real \<Rightarrow> cycle_input" where
  "sample v t = \<lparr>adcVal = v, raises = quiet, clock_check = t, clock_set = t\<rparr>"

section \<open>Handlers and dispatch\<close>

text \<open>The equations that evaluate a concrete run.\<close>

lemmas run_defs =
  monitor_def monitor_init_def monitor_cycle_def sleep_and_reset_def check_voltage_def
  alarm_dispatch_def info_check_def status_message_def adcValVolts_def ADC_SCALE_TO_V_def
  main_def default_args_def quiet_def buzzer_broken_def sample_def new_events_def
  NOTSET_def DEBUG_def INFO_def WARNING_def ERROR_def CRITICAL_def Let_def

lemma calls_at_append: "calls_at sev (xs @ ys) = calls_at sev xs @ calls_at sev ys"
  by (induction sev xs rule: calls_at.induct) auto

lemma trigger_below_ERROR:
  "severity < ERROR \<Longrightarrow> \<exists>out. trigger rs h msg severity = Inr out"
  by (cases h) auto

lemma email_failure_is_caught:
  "trigger rs (EMailAlarmHandler u pw dst) msg severity \<noteq> Inl e"
  by simp

lemma dispatch_Inr:
  "dispatch rs hs msg severity tr = Inr tr' \<Longrightarrow>
     \<exists>evs. tr' = tr @ evs \<and>
       (\<forall>sv. calls_at sv evs = (if sv = severity then map (\<lambda>h. (h, msg)) hs else []))"
proof (induction hs arbitrary: tr)
  case Nil
  then show ?case by simp
next
  case (Cons h hs)
  from Cons.prems obtain out where
    t: "trigger rs h msg severity = Inr out" and
    d: "dispatch rs hs msg severity (tr @ [Triggered h msg severity out]) = Inr tr'"
    by (auto split: sum.splits)
  from Cons.IH[OF d] obtain evs where
    e: "tr' = (tr @ [Triggered h msg severity out]) @ evs" and
    c: "\<forall>sv. calls_at sv evs = (if sv = severity then map (\<lambda>h. (h, msg)) hs else [])"
    by blast
  have "tr' = tr @ (Triggered h msg severity out # evs)" using e by simp
  moreover have "\<forall>sv. calls_at sv (Triggered h msg severity out # evs) =
      (if sv = severity then map (\<lambda>h. (h, msg)) (h # hs) else [])"
    using c by simp
  ultimately show ?case by blast
qed

lemma dispatch_below_ERROR:
  "severity < ERROR \<Longrightarrow> \<exists>tr'. dispatch rs hs msg severity tr = Inr tr'"
proof (induction hs arbitrary: tr)
  case Nil
  then show ?case by simp
next
  case (Cons h hs)
  from trigger_below_ERROR[OF Cons.prems] obtain out where "trigger rs h msg severity = Inr out"
    by blast
  then show ?case using Cons.IH[OF Cons.prems] by simp
qed

lemma dispatch_no_raise:
  "\<forall>h. \<not> rs h severity \<Longrightarrow> \<exists>tr'. dispatch rs hs msg severity tr = Inr tr'"
proof (induction hs arbitrary: tr)
  case Nil
  then show ?case by simp
next
  case (Cons h hs)
  have "\<exists>out. trigger rs h msg severity = Inr out" using Cons.prems by (cases h) auto
  then show ?case using Cons.IH[OF Cons.prems] by auto
qed

section \<open>One pass of the loop\<close>

lemma check_voltage_inv:
  "1 \<le> alarmNTriggers cfg \<Longrightarrow> counter_inv cfg s \<Longrightarrow> counter_inv cfg (fst (check_voltage cfg v s))"
  by (auto simp: counter_inv_def check_voltage_def Let_def split: if_splits)

lemma check_voltage_after_reset:
  "alarmState (fst (check_voltage cfg v (sleep_and_reset cfg s))) = alarmState (fst (check_voltage cfg v s))"
  "numberOfAlarmsLeftToTrigger (fst (check_voltage cfg v (sleep_and_reset cfg s))) =
     numberOfAlarmsLeftToTrigger (fst (check_voltage cfg v s))"
  "snd (check_voltage cfg v (sleep_and_reset cfg s)) = snd (check_voltage cfg v s)"
  "nextInfoTrigger (fst (check_voltage cfg v (sleep_and_reset cfg s))) = nextInfoTrigger s"
  "trace (fst (check_voltage cfg v (sleep_and_reset cfg s))) = trace s @ [Slept (readPeriod s)]"
  by (simp_all add: check_voltage_def sleep_and_reset_def Let_def)

lemma alarm_calls_INFO: "alarm_calls cfg inp s INFO = []"
  by (simp add: alarm_calls_def check_voltage_def Let_def INFO_def CRITICAL_def)

lemma alarm_dispatch_Inr:
  assumes a: "alarm_dispatch cfg rs req s = Inr s'"
  shows "alarmState s' = alarmState s \<and> numberOfAlarmsLeftToTrigger s' = numberOfAlarmsLeftToTrigger s \<and>
     readPeriod s' = readPeriod s \<and> nextInfoTrigger s' = nextInfoTrigger s \<and>
     (\<exists>evs. trace s' = trace s @ evs \<and>
        (\<forall>sv. calls_at sv evs =
           (case req of None \<Rightarrow> []
            | Some (msg, severity) \<Rightarrow>
                if sv = severity then map (\<lambda>h. (h, msg)) (alarmHandlers cfg) else [])))"
proof (cases req)
  case None
  with a show ?thesis by (auto simp: alarm_dispatch_def)
next
  case (Some p)
  obtain msg severity where p: "p = (msg, severity)" by (cases p)
  from a obtain tr where d: "dispatch rs (alarmHandlers cfg) msg severity (trace s) = Inr tr"
    and s': "s' = s\<lparr>trace := tr\<rparr>"
    by (auto simp: alarm_dispatch_def Some p split: sum.splits)
  from dispatch_Inr[OF d] show ?thesis using s' Some p by auto
qed

lemma info_check_Inr:
  assumes a: "info_check cfg inp m s = Inr s'"
  shows "alarmState s' = alarmState s \<and> numberOfAlarmsLeftToTrigger s' = numberOfAlarmsLeftToTrigger s \<and>
     readPeriod s' = readPeriod s \<and>
     nextInfoTrigger s' =
       (if clock_check inp > nextInfoTrigger s then clock_set inp + of_int (infoPeriod cfg)
        else nextInfoTrigger s) \<and>
     (\<exists>evs. trace s' = trace s @ evs \<and>
        (\<forall>sv. calls_at sv evs =
           (if sv = INFO \<and> clock_check inp > nextInfoTrigger s
            then map (\<lambda>h. (h, m)) (alarmHandlers cfg) else [])))"
proof (cases "clock_check inp > nextInfoTrigger s")
  case False
  with a show ?thesis by (auto simp: info_check_def)
next
  case True
  with a obtain tr where d: "dispatch (raises inp) (alarmHandlers cfg) m INFO (trace s) = Inr tr"
    and s': "s' = s\<lparr>trace := tr, nextInfoTrigger := clock_set inp + of_int (infoPeriod cfg)\<rparr>"
    by (auto simp: info_check_def split: sum.splits)
  from dispatch_Inr[OF d] show ?thesis using s' True by auto
qed

lemma monitor_cycle_Inr:
  assumes a: "monitor_cycle cfg inp s = Inr s'"
  shows "alarmState s' = alarmState (fst (check_voltage cfg (adcVal inp) s))"
    and "numberOfAlarmsLeftToTrigger s' =
           numberOfAlarmsLeftToTrigger (fst (check_voltage cfg (adcVal inp) s))"
    and "readPeriod s' = readPeriod (fst (check_voltage cfg (adcVal inp) (sleep_and_reset cfg s)))"
    and "nextInfoTrigger s' =
           (if clock_check inp > nextInfoTrigger s then clock_set inp + of_int (infoPeriod cfg)
            else nextInfoTrigger s)"
    and "\<exists>ea ei. new_events s s' = Slept (readPeriod s) # ea @ ei \<and>
           (\<forall>sv. calls_at sv ea = alarm_calls cfg inp s sv) \<and>
           (\<forall>sv. calls_at sv ei = info_calls cfg inp s sv)"
proof -
  define s0 where "s0 = sleep_and_reset cfg s"
  define s1 where "s1 = fst (check_voltage cfg (adcVal inp) s0)"
  define req where "req = snd (check_voltage cfg (adcVal inp) s0)"
  from a obtain s2 where
    d: "alarm_dispatch cfg (raises inp) req s1 = Inr s2" and
    i: "info_check cfg inp (status_message cfg (adcVal inp) s0 req) s2 = Inr s'"
    by (auto simp: monitor_cycle_def Let_def s0_def s1_def req_def
        split: prod.splits sum.splits if_splits)
  note D = alarm_dispatch_Inr[OF d]
  note I = info_check_Inr[OF i]
  note R = check_voltage_after_reset[of cfg "adcVal inp" s]
  have req: "req = snd (check_voltage cfg (adcVal inp) s)"
    by (simp add: req_def s0_def R)
  show "alarmState s' = alarmState (fst (check_voltage cfg (adcVal inp) s))"
    using D I R by (simp add: s1_def s0_def)
  show "numberOfAlarmsLeftToTrigger s' =
           numberOfAlarmsLeftToTrigger (fst (check_voltage cfg (adcVal inp) s))"
    using D I R by (simp add: s1_def s0_def)
  show "readPeriod s' = readPeriod (fst (check_voltage cfg (adcVal inp) (sleep_and_reset cfg s)))"
    using D I by (simp add: s1_def s0_def)
  have n2: "nextInfoTrigger s2 = nextInfoTrigger s"
    using D R by (simp add: s1_def s0_def)
  show "nextInfoTrigger s' =
           (if clock_check inp > nextInfoTrigger s then clock_set inp + of_int (infoPeriod cfg)
            else nextInfoTrigger s)"
    using I n2 by simp
  from D obtain ea where ea: "trace s2 = trace s1 @ ea" and
    ca: "\<forall>sv. calls_at sv ea = alarm_calls cfg inp s sv"
    unfolding alarm_calls_def req by blast
  from I obtain ei where ei: "trace s' = trace s2 @ ei" and
    ci: "\<forall>sv. calls_at sv ei = info_calls cfg inp s sv"
    unfolding info_calls_def n2 req s0_def by blast
  have t1: "trace s1 = trace s @ [Slept (readPeriod s)]"
    using R by (simp add: s1_def s0_def)
  have "new_events s s' = Slept (readPeriod s) # ea @ ei"
    using ea ei t1 by (simp add: new_events_def)
  with ca ci show "\<exists>ea ei. new_events s s' = Slept (readPeriod s) # ea @ ei \<and>
           (\<forall>sv. calls_at sv ea = alarm_calls cfg inp s sv) \<and>
           (\<forall>sv. calls_at sv ei = info_calls cfg inp s sv)"
    by blast
qed

lemma cycle_calls:
  assumes "monitor_cycle cfg inp s = Inr s'"
  shows "calls_at sv (new_events s s') = alarm_calls cfg inp s sv @ info_calls cfg inp s sv"
  using monitor_cycle_Inr(5)[OF assms] by (auto simp: calls_at_append)

lemma cycle_readPeriod:
  assumes "monitor_cycle cfg inp s = Inr s'"
  shows "readPeriod s' =
           (if alarmState s = OK \<and> adcValVolts (adcVal inp) < alarmMinVoltage cfg then 1
            else readPeriodState cfg)"
  using monitor_cycle_Inr(3)[OF assms]
  by (simp add: check_voltage_def sleep_and_reset_def Let_def)

text \<open>
  A pass that starts with a period that is not negative and in which no external call
  raises returns normally.
\<close>

lemma monitor_cycle_no_raise:
  assumes "\<forall>h sev. \<not> raises inp h sev" and nonneg: "0 \<le> readPeriod s"
  shows "\<exists>s'. monitor_cycle cfg inp s = Inr s'"
proof -
  define s0 where "s0 = sleep_and_reset cfg s"
  obtain s1 req where cv: "check_voltage cfg (adcVal inp) s0 = (s1, req)"
    by (cases "check_voltage cfg (adcVal inp) s0")
  have "\<exists>s2. alarm_dispatch cfg (raises inp) req s1 = Inr s2"
  proof (cases req)
    case None
    then show ?thesis by (simp add: alarm_dispatch_def)
  next
    case (Some p)
    obtain msg severity where p: "p = (msg, severity)" by (cases p)
    from assms have "\<forall>h. \<not> raises inp h severity" by simp
    from dispatch_no_raise[of "raises inp" severity, OF this] obtain tr where
      "dispatch (raises inp) (alarmHandlers cfg) msg severity (trace s1) = Inr tr" by blast
    then show ?thesis by (simp add: alarm_dispatch_def Some p)
  qed
  then obtain s2 where d: "alarm_dispatch cfg (raises inp) req s1 = Inr s2" by blast
  have "\<exists>s'. info_check cfg inp (status_message cfg (adcVal inp) s0 req) s2 = Inr s'"
  proof (cases "clock_check inp > nextInfoTrigger s2")
    case False
    then show ?thesis by (simp add: info_check_def)
  next
    case True
    from assms have "\<forall>h. \<not> raises inp h INFO" by simp
    from dispatch_no_raise[of "raises inp" INFO, OF this] obtain tr where
      "dispatch (raises inp) (alarmHandlers cfg) (status_message cfg (adcVal inp) s0 req) INFO
         (trace s2) = Inr tr" by blast
    with True show ?thesis by (simp add: info_check_def)
  qed
  with cv d nonneg show ?thesis by (simp add: monitor_cycle_def s0_def)
qed

lemma monitor_loop_no_raise:
  "0 \<le> readPeriodState cfg \<Longrightarrow> 0 \<le> readPeriod s \<Longrightarrow>
   list_all (\<lambda>inp. \<forall>h sev. \<not> raises inp h sev) inps \<Longrightarrow>
   \<exists>s'. monitor_loop cfg inps s = Inr s'"
proof (induction inps arbitrary: s)
  case Nil
  then show ?case by simp
next
  case (Cons inp inps)
  from Cons.prems(3) have q: "\<forall>h sev. \<not> raises inp h sev"
    and qs: "list_all (\<lambda>inp. \<forall>h sev. \<not> raises inp h sev) inps" by simp_all
  from monitor_cycle_no_raise[OF q Cons.prems(2)] obtain s1 where
    c: "monitor_cycle cfg inp s = Inr s1" by blast
  from cycle_readPeriod[OF c] Cons.prems(1) have "0 \<le> readPeriod s1" by simp
  from Cons.IH[OF Cons.prems(1) this qs] c show ?case by simp
qed

section \<open>The counter stays in its range\<close>

lemma monitor_cycle_inv:
  "1 \<le> alarmNTriggers cfg \<Longrightarrow> counter_inv cfg s \<Longrightarrow> monitor_cycle cfg inp s = Inr s' \<Longrightarrow>
     counter_inv cfg s'"
  using check_voltage_inv[of cfg s "adcVal inp"] monitor_cycle_Inr(1,2)[of cfg inp s s']
  by (simp add: counter_inv_def)

lemma monitor_loop_inv:
  "1 \<le> alarmNTriggers cfg \<Longrightarrow> counter_inv cfg s \<Longrightarrow> monitor_loop cfg inps s = Inr s' \<Longrightarrow>
     counter_inv cfg s'"
proof (induction inps arbitrary: s)
  case Nil
  then show ?case by simp
next
  case (Cons inp inps)
  from Cons.prems(3) obtain s1 where c: "monitor_cycle cfg inp s = Inr s1"
    and l: "monitor_loop cfg inps s1 = Inr s'"
    by (auto split: sum.splits)
  from monitor_cycle_inv[OF Cons.prems(1,2) c] Cons.IH[OF Cons.prems(1) _ l]
  show ?case by blast
qed

lemma monitor_init_inv:
  "1 \<le> alarmNTriggers cfg \<Longrightarrow> monitor_init cfg rs now = Inr s \<Longrightarrow> counter_inv cfg s"
  by (auto simp: monitor_init_def counter_inv_def split: sum.splits)

lemma monitor_inv:
  "1 \<le> alarmNTriggers cfg \<Longrightarrow> monitor cfg rs now inps = Inr s \<Longrightarrow> counter_inv cfg s"
  using monitor_init_inv monitor_loop_inv
  by (fastforce simp: monitor_def split: sum.splits)

section \<open>Runs of bad and of good readings\<close>

lemma cycle_bad_reading:
  assumes "adcValVolts (adcVal inp) < alarmMinVoltage cfg" and "monitor_cycle cfg inp s = Inr s'"
  shows "alarmState s = OK \<Longrightarrow>
           alarmState s' = (if numberOfAlarmsLeftToTrigger s - 1 < 1 then ALARM else OK) \<and>
           numberOfAlarmsLeftToTrigger s' = numberOfAlarmsLeftToTrigger s - 1"
    and "alarmState s \<noteq> OK \<Longrightarrow> alarmState s' = alarmState s \<and> numberOfAlarmsLeftToTrigger s' = 0"
  using assms(1) monitor_cycle_Inr(1,2)[OF assms(2)]
  by (simp_all add: check_voltage_def Let_def)

lemma cycle_good_reading:
  assumes "\<not> adcValVolts (adcVal inp) < alarmMinVoltage cfg" and "monitor_cycle cfg inp s = Inr s'"
  shows "alarmState s = OK \<Longrightarrow>
           alarmState s' = OK \<and> numberOfAlarmsLeftToTrigger s' = alarmNTriggers cfg"
    and "alarmState s \<noteq> OK \<Longrightarrow>
           alarmState s' =
             (if numberOfAlarmsLeftToTrigger s + 1 \<ge> alarmNTriggers cfg then OK else alarmState s) \<and>
           numberOfAlarmsLeftToTrigger s' = numberOfAlarmsLeftToTrigger s + 1"
  using assms(1) monitor_cycle_Inr(1,2)[OF assms(2)]
  by (simp_all add: check_voltage_def Let_def)

lemma bad_run_alarmed:
  "alarmState s \<noteq> OK \<Longrightarrow>
   list_all (\<lambda>i. adcValVolts (adcVal i) < alarmMinVoltage cfg) inps \<Longrightarrow>
   monitor_loop cfg inps s = Inr s' \<Longrightarrow>
   alarmState s' = alarmState s \<and>
   numberOfAlarmsLeftToTrigger s' = (if inps = [] then numberOfAlarmsLeftToTrigger s else 0)"
proof (induction inps arbitrary: s)
  case Nil
  then show ?case by simp
next
  case (Cons inp inps)
  from Cons.prems(3) obtain s1 where c: "monitor_cycle cfg inp s = Inr s1"
    and l: "monitor_loop cfg inps s1 = Inr s'"
    by (auto split: sum.splits)
  from Cons.prems(2) have b: "adcValVolts (adcVal inp) < alarmMinVoltage cfg"
    and bs: "list_all (\<lambda>i. adcValVolts (adcVal i) < alarmMinVoltage cfg) inps" by simp_all
  from cycle_bad_reading(2)[OF b c Cons.prems(1)]
  have s1: "alarmState s1 = alarmState s" "numberOfAlarmsLeftToTrigger s1 = 0" by simp_all
  from Cons.IH[OF _ bs l] s1 Cons.prems(1) show ?case by auto
qed

lemma bad_run_ok:
  "alarmState s = OK \<Longrightarrow> 1 \<le> numberOfAlarmsLeftToTrigger s \<Longrightarrow>
   list_all (\<lambda>i. adcValVolts (adcVal i) < alarmMinVoltage cfg) inps \<Longrightarrow>
   monitor_loop cfg inps s = Inr s' \<Longrightarrow>
   alarmState s' = (if int (length inps) < numberOfAlarmsLeftToTrigger s then OK else ALARM) \<and>
   numberOfAlarmsLeftToTrigger s' = max 0 (numberOfAlarmsLeftToTrigger s - int (length inps))"
proof (induction inps arbitrary: s)
  case Nil
  then show ?case by simp
next
  case (Cons inp inps)
  from Cons.prems(4) obtain s1 where c: "monitor_cycle cfg inp s = Inr s1"
    and l: "monitor_loop cfg inps s1 = Inr s'"
    by (auto split: sum.splits)
  from Cons.prems(3) have b: "adcValVolts (adcVal inp) < alarmMinVoltage cfg"
    and bs: "list_all (\<lambda>i. adcValVolts (adcVal i) < alarmMinVoltage cfg) inps" by simp_all
  note s1 = cycle_bad_reading(1)[OF b c Cons.prems(1)]
  show ?case
  proof (cases "numberOfAlarmsLeftToTrigger s = 1")
    case True
    with s1 have a: "alarmState s1 \<noteq> OK" and z: "numberOfAlarmsLeftToTrigger s1 = 0"
      and al: "alarmState s1 = ALARM" by simp_all
    from bad_run_alarmed[OF a bs l] z al True show ?thesis by auto
  next
    case False
    with Cons.prems(2) s1 have o: "alarmState s1 = OK" and p: "1 \<le> numberOfAlarmsLeftToTrigger s1"
      and e: "numberOfAlarmsLeftToTrigger s1 = numberOfAlarmsLeftToTrigger s - 1" by simp_all
    from Cons.IH[OF o p bs l] e show ?thesis by auto
  qed
qed

lemma good_run_ok:
  "alarmState s = OK \<Longrightarrow>
   list_all (\<lambda>i. \<not> adcValVolts (adcVal i) < alarmMinVoltage cfg) inps \<Longrightarrow>
   monitor_loop cfg inps s = Inr s' \<Longrightarrow>
   alarmState s' = OK \<and>
   numberOfAlarmsLeftToTrigger s' =
     (if inps = [] then numberOfAlarmsLeftToTrigger s else alarmNTriggers cfg)"
proof (induction inps arbitrary: s)
  case Nil
  then show ?case by simp
next
  case (Cons inp inps)
  from Cons.prems(3) obtain s1 where c: "monitor_cycle cfg inp s = Inr s1"
    and l: "monitor_loop cfg inps s1 = Inr s'"
    by (auto split: sum.splits)
  from Cons.prems(2) have b: "\<not> adcValVolts (adcVal inp) < alarmMinVoltage cfg"
    and bs: "list_all (\<lambda>i. \<not> adcValVolts (adcVal i) < alarmMinVoltage cfg) inps" by simp_all
  from cycle_good_reading(1)[OF b c Cons.prems(1)]
  have s1: "alarmState s1 = OK" "numberOfAlarmsLeftToTrigger s1 = alarmNTriggers cfg" by simp_all
  from Cons.IH[OF s1(1) bs l] s1 show ?case by auto
qed

lemma good_run_alarmed:
  "alarmState s = ALARM \<Longrightarrow> 0 \<le> numberOfAlarmsLeftToTrigger s \<Longrightarrow>
   numberOfAlarmsLeftToTrigger s < alarmNTriggers cfg \<Longrightarrow>
   list_all (\<lambda>i. \<not> adcValVolts (adcVal i) < alarmMinVoltage cfg) inps \<Longrightarrow>
   monitor_loop cfg inps s = Inr s' \<Longrightarrow>
   alarmState s' =
     (if numberOfAlarmsLeftToTrigger s + int (length inps) < alarmNTriggers cfg then ALARM else OK) \<and>
   numberOfAlarmsLeftToTrigger s' =
     min (alarmNTriggers cfg) (numberOfAlarmsLeftToTrigger s + int (length inps))"
proof (induction inps arbitrary: s)
  case Nil
  then show ?case by simp
next
  case (Cons inp inps)
  from Cons.prems(5) obtain s1 where c: "monitor_cycle cfg inp s = Inr s1"
    and l: "monitor_loop cfg inps s1 = Inr s'"
    by (auto split: sum.splits)
  from Cons.prems(4) have b: "\<not> adcValVolts (adcVal inp) < alarmMinVoltage cfg"
    and bs: "list_all (\<lambda>i. \<not> adcValVolts (adcVal i) < alarmMinVoltage cfg) inps" by simp_all
  from Cons.prems(1) have n: "alarmState s \<noteq> OK" by simp
  note s1 = cycle_good_reading(2)[OF b c n]
  show ?case
  proof (cases "numberOfAlarmsLeftToTrigger s + 1 \<ge> alarmNTriggers cfg")
    case True
    with s1 have o: "alarmState s1 = OK"
      and e: "numberOfAlarmsLeftToTrigger s1 = numberOfAlarmsLeftToTrigger s + 1" by simp_all
    from good_run_ok[OF o bs l] e True Cons.prems(3) show ?thesis by auto
  next
    case False
    with s1 Cons.prems(1) have a: "alarmState s1 = ALARM"
      and e: "numberOfAlarmsLeftToTrigger s1 = numberOfAlarmsLeftToTrigger s + 1" by simp_all
    from e Cons.prems(2) False have p: "0 \<le> numberOfAlarmsLeftToTrigger s1"
      and q: "numberOfAlarmsLeftToTrigger s1 < alarmNTriggers cfg" by simp_all
    from Cons.IH[OF a p q bs l] e show ?thesis by auto
  qed
qed

section \<open>The information alarm\<close>

lemma cycle_deadline_mono:
  assumes "0 \<le> infoPeriod cfg" and "clock_check inp \<le> clock_set inp"
    and "monitor_cycle cfg inp s = Inr s'"
  shows "nextInfoTrigger s \<le> nextInfoTrigger s'"
  using assms(1,2) monitor_cycle_Inr(4)[OF assms(3)] by (simp split: if_splits)

lemma loop_deadline_mono:
  "0 \<le> infoPeriod cfg \<Longrightarrow> list_all (\<lambda>i. clock_check i \<le> clock_set i) inps \<Longrightarrow>
   monitor_loop cfg inps s = Inr s' \<Longrightarrow> nextInfoTrigger s \<le> nextInfoTrigger s'"
proof (induction inps arbitrary: s)
  case Nil
  then show ?case by simp
next
  case (Cons inp inps)
  from Cons.prems(3) obtain s1 where c: "monitor_cycle cfg inp s = Inr s1"
    and l: "monitor_loop cfg inps s1 = Inr s'"
    by (auto split: sum.splits)
  from Cons.prems(2) have m: "clock_check inp \<le> clock_set inp"
    and ms: "list_all (\<lambda>i. clock_check i \<le> clock_set i) inps" by simp_all
  from cycle_deadline_mono[OF Cons.prems(1) m c] Cons.IH[OF Cons.prems(1) ms l]
  show ?case by simp
qed

lemma startup_dispatch_returns: "\<exists>tr. dispatch rs hs msg INFO [] = Inr tr"
  using dispatch_below_ERROR[of INFO rs hs msg "[]"] by (simp add: INFO_def ERROR_def)

text \<open>The start-up notification has severity \<open>INFO\<close>, so no handler can end \<open>monitor\<close> there.\<close>

lemma monitor_init_returns: "\<exists>s. monitor_init cfg rs now = Inr s"
proof -
  obtain tr where "dispatch rs (alarmHandlers cfg)
      (StartupMsg (adcNumber cfg) (readPeriodState cfg) (alarmMinVoltage cfg)
         (alarmNTriggers cfg)) INFO [] = Inr tr"
    using startup_dispatch_returns by blast
  then show ?thesis by (simp add: monitor_init_def)
qed

section \<open>The voltage reading\<close>



section \<open>The claims\<close>

text \<open>
  C1. For every trigger count \<open>N \<ge> 1\<close> and every threshold: from state \<open>OK\<close> with the
  counter at \<open>N\<close>, a run of readings that are all below the threshold leaves the state
  \<open>OK\<close> as long as it is shorter than \<open>N\<close> (the counter then is \<open>N\<close> minus its length) and
  has reached \<open>ALARM\<close> once its length is \<open>N\<close>; and one reading at or above the threshold
  in state \<open>OK\<close>, whatever the counter, puts the counter back to \<open>N\<close>.
\<close>

theorem alarm_after_exactly_N_bad_readings:
  assumes "1 \<le> alarmNTriggers cfg"
  shows "(alarmState s = OK \<and> numberOfAlarmsLeftToTrigger s = alarmNTriggers cfg \<and>
          list_all (\<lambda>i. adcValVolts (adcVal i) < alarmMinVoltage cfg) inps \<and>
          monitor_loop cfg inps s = Inr s' \<longrightarrow>
            alarmState s' = (if int (length inps) < alarmNTriggers cfg then OK else ALARM) \<and>
            numberOfAlarmsLeftToTrigger s' = max 0 (alarmNTriggers cfg - int (length inps))) \<and>
         (alarmState t = OK \<and> \<not> adcValVolts (adcVal inp) < alarmMinVoltage cfg \<and>
          monitor_cycle cfg inp t = Inr t' \<longrightarrow>
            alarmState t' = OK \<and> numberOfAlarmsLeftToTrigger t' = alarmNTriggers cfg)"
  using assms bad_run_ok[of s cfg inps s'] cycle_good_reading(1)[of inp cfg t t']
  by auto

text \<open>
  With \<open>N = 3\<close> and threshold 0.7: raw samples of 284 (about 0.5 V) are below it, 455
  (about 0.8 V) is not. Two bad readings leave the state \<open>OK\<close> with counter 1, the third
  alarms, and a good reading after two bad ones re-arms the counter to 3.
\<close>

theorem alarm_after_exactly_N_bad_readings_witness:
  "1 \<le> alarmNTriggers (main (default_args\<lparr>alarm_tri := 3\<rparr>)) \<and>
   (\<exists>s s'. monitor_init (main (default_args\<lparr>alarm_tri := 3\<rparr>)) quiet 0 = Inr s \<and>
      monitor_loop (main (default_args\<lparr>alarm_tri := 3\<rparr>))
        [sample 284 2, sample 284 3, sample 284 4] s = Inr s' \<and>
      alarmState s' = ALARM \<and> numberOfAlarmsLeftToTrigger s' = 0) \<and>
   (\<exists>t t'. monitor (main (default_args\<lparr>alarm_tri := 3\<rparr>)) quiet 0
        [sample 284 2, sample 284 3] = Inr t \<and>
      monitor_cycle (main (default_args\<lparr>alarm_tri := 3\<rparr>)) (sample 455 4) t = Inr t' \<and>
      alarmState t = OK \<and> numberOfAlarmsLeftToTrigger t = 1 \<and>
      alarmState t' = OK \<and> numberOfAlarmsLeftToTrigger t' = 3)"
proof -
  let ?cfg = "main (default_args\<lparr>alarm_tri := 3\<rparr>)"
  let ?bad = "[sample 284 2, sample 284 3, sample 284 4]"
  have n: "1 \<le> alarmNTriggers ?cfg" "alarmNTriggers ?cfg = 3" by (simp_all add: run_defs)
  have "\<exists>s s'. monitor_init ?cfg quiet 0 = Inr s \<and> monitor_loop ?cfg ?bad s = Inr s' \<and>
      alarmState s = OK \<and> numberOfAlarmsLeftToTrigger s = alarmNTriggers ?cfg"
    by (simp add: run_defs)
  then obtain s s' where i: "monitor_init ?cfg quiet 0 = Inr s"
    and l: "monitor_loop ?cfg ?bad s = Inr s'"
    and o: "alarmState s = OK" "numberOfAlarmsLeftToTrigger s = alarmNTriggers ?cfg"
    by blast
  have b: "list_all (\<lambda>i. adcValVolts (adcVal i) < alarmMinVoltage ?cfg) ?bad"
    by (simp add: run_defs)
  have "\<exists>t t'. monitor ?cfg quiet 0 [sample 284 2, sample 284 3] = Inr t \<and>
      monitor_cycle ?cfg (sample 455 4) t = Inr t' \<and>
      alarmState t = OK \<and> numberOfAlarmsLeftToTrigger t = 1"
    by (simp add: run_defs)
  then obtain t t' where m: "monitor ?cfg quiet 0 [sample 284 2, sample 284 3] = Inr t"
    and c: "monitor_cycle ?cfg (sample 455 4) t = Inr t'"
    and ot: "alarmState t = OK" "numberOfAlarmsLeftToTrigger t = 1"
    by blast
  have g: "\<not> adcValVolts (adcVal (sample 455 4)) < alarmMinVoltage ?cfg"
    by (simp add: run_defs)
  from alarm_after_exactly_N_bad_readings[OF n(1), of s ?bad s' t "sample 455 4" t']
    o b l ot g c n(2)
  have "alarmState s' = ALARM \<and> numberOfAlarmsLeftToTrigger s' = 0 \<and>
        alarmState t' = OK \<and> numberOfAlarmsLeftToTrigger t' = 3"
    by simp
  with n(1) i l m c ot show ?thesis by blast
qed

text \<open>
  C2. For every trigger count \<open>N \<ge> 1\<close>: from state \<open>ALARM\<close> with the counter at 0 (its
  value when the alarm is raised and after every bad reading), a run of readings that are
  all at or above the threshold leaves the state \<open>ALARM\<close> as long as it is shorter than
  \<open>N\<close> and has returned to \<open>OK\<close> once its length is \<open>N\<close>; and one reading below the
  threshold in state \<open>ALARM\<close>, whatever the counter, puts the counter back to 0.
\<close>

theorem recovery_after_exactly_N_good_readings:
  assumes "1 \<le> alarmNTriggers cfg"
  shows "(alarmState s = ALARM \<and> numberOfAlarmsLeftToTrigger s = 0 \<and>
          list_all (\<lambda>i. \<not> adcValVolts (adcVal i) < alarmMinVoltage cfg) inps \<and>
          monitor_loop cfg inps s = Inr s' \<longrightarrow>
            alarmState s' = (if int (length inps) < alarmNTriggers cfg then ALARM else OK) \<and>
            numberOfAlarmsLeftToTrigger s' = min (alarmNTriggers cfg) (int (length inps))) \<and>
         (alarmState t = ALARM \<and> adcValVolts (adcVal inp) < alarmMinVoltage cfg \<and>
          monitor_cycle cfg inp t = Inr t' \<longrightarrow>
            alarmState t' = ALARM \<and> numberOfAlarmsLeftToTrigger t' = 0)"
  using assms good_run_alarmed[of s cfg inps s'] cycle_bad_reading(2)[of inp cfg t t']
  by auto

text \<open>
  With \<open>N = 2\<close>: after two bad readings the state is \<open>ALARM\<close> with counter 0; two good
  readings return to \<open>OK\<close>; a bad reading after one good one puts the counter back to 0.
\<close>

theorem recovery_after_exactly_N_good_readings_witness:
  "1 \<le> alarmNTriggers (main (default_args\<lparr>alarm_tri := 2\<rparr>)) \<and>
   (\<exists>s s'. monitor (main (default_args\<lparr>alarm_tri := 2\<rparr>)) quiet 0
        [sample 284 2, sample 284 3] = Inr s \<and>
      monitor_loop (main (default_args\<lparr>alarm_tri := 2\<rparr>))
        [sample 455 4, sample 455 6] s = Inr s' \<and>
      alarmState s = ALARM \<and> numberOfAlarmsLeftToTrigger s = 0 \<and>
      alarmState s' = OK \<and> numberOfAlarmsLeftToTrigger s' = 2) \<and>
   (\<exists>t t'. monitor (main (default_args\<lparr>alarm_tri := 2\<rparr>)) quiet 0
        [sample 284 2, sample 284 3, sample 455 4] = Inr t \<and>
      monitor_cycle (main (default_args\<lparr>alarm_tri := 2\<rparr>)) (sample 284 6) t = Inr t' \<and>
      alarmState t = ALARM \<and> numberOfAlarmsLeftToTrigger t = 1 \<and>
      alarmState t' = ALARM \<and> numberOfAlarmsLeftToTrigger t' = 0)"
proof -
  let ?cfg = "main (default_args\<lparr>alarm_tri := 2\<rparr>)"
  let ?good = "[sample 455 4, sample 455 6]"
  have n: "1 \<le> alarmNTriggers ?cfg" "alarmNTriggers ?cfg = 2" by (simp_all add: run_defs)
  have "\<exists>s s'. monitor ?cfg quiet 0 [sample 284 2, sample 284 3] = Inr s \<and>
      monitor_loop ?cfg ?good s = Inr s' \<and>
      alarmState s = ALARM \<and> numberOfAlarmsLeftToTrigger s = 0"
    by (simp add: run_defs)
  then obtain s s' where m: "monitor ?cfg quiet 0 [sample 284 2, sample 284 3] = Inr s"
    and l: "monitor_loop ?cfg ?good s = Inr s'"
    and a: "alarmState s = ALARM" "numberOfAlarmsLeftToTrigger s = 0"
    by blast
  have g: "list_all (\<lambda>i. \<not> adcValVolts (adcVal i) < alarmMinVoltage ?cfg) ?good"
    by (simp add: run_defs)
  have "\<exists>t t'. monitor ?cfg quiet 0 [sample 284 2, sample 284 3, sample 455 4] = Inr t \<and>
      monitor_cycle ?cfg (sample 284 6) t = Inr t' \<and>
      alarmState t = ALARM \<and> numberOfAlarmsLeftToTrigger t = 1"
    by (simp add: run_defs)
  then obtain t t' where mt: "monitor ?cfg quiet 0 [sample 284 2, sample 284 3, sample 455 4] = Inr t"
    and c: "monitor_cycle ?cfg (sample 284 6) t = Inr t'"
    and at: "alarmState t = ALARM" "numberOfAlarmsLeftToTrigger t = 1"
    by blast
  have b: "adcValVolts (adcVal (sample 284 6)) < alarmMinVoltage ?cfg"
    by (simp add: run_defs)
  from recovery_after_exactly_N_good_readings[OF n(1), of s ?good s' t "sample 284 6" t']
    a g l at b c n(2)
  have "alarmState s' = OK \<and> numberOfAlarmsLeftToTrigger s' = 2 \<and>
        alarmState t' = ALARM \<and> numberOfAlarmsLeftToTrigger t' = 0"
    by simp
  with n(1) m l a mt c at show ?thesis by blast
qed

text \<open>
  C3. The pass that takes the state from \<open>OK\<close> to \<open>ALARM\<close> calls every handler of
  \<open>alarmHandlers\<close> exactly once with severity \<open>CRITICAL\<close>, in order and with one and the
  same status message. The pass that takes the state from \<open>ALARM\<close> back to \<open>OK\<close> makes
  no handler call for the recovery: it has no call of any severity but \<open>INFO\<close>, and none
  of severity \<open>INFO\<close> either unless the information alarm of lines 158--163 is due in
  that very pass.
\<close>

theorem alarm_edge_one_CRITICAL_recovery_silent:
  "(alarmState s = OK \<and> monitor_cycle cfg inp s = Inr s' \<and> alarmState s' = ALARM \<longrightarrow>
      calls_at CRITICAL (new_events s s') =
        map (\<lambda>h. (h, StatusMsg ALARM (adcNumber cfg) (adcVal inp) (adcValVolts (adcVal inp))
                      (numberOfAlarmsLeftToTrigger s'))) (alarmHandlers cfg)) \<and>
   (alarmState t = ALARM \<and> monitor_cycle cfg inp2 t = Inr t' \<and> alarmState t' = OK \<longrightarrow>
      (\<forall>sev. sev \<noteq> INFO \<longrightarrow> calls_at sev (new_events t t') = []) \<and>
      (clock_check inp2 \<le> nextInfoTrigger t \<longrightarrow> calls_at INFO (new_events t t') = []))"
proof (intro conjI impI)
  assume a: "alarmState s = OK \<and> monitor_cycle cfg inp s = Inr s' \<and> alarmState s' = ALARM"
  then have c: "monitor_cycle cfg inp s = Inr s'" by simp
  from monitor_cycle_Inr(1,2)[OF c] a
  have "snd (check_voltage cfg (adcVal inp) s) =
      Some (StatusMsg ALARM (adcNumber cfg) (adcVal inp) (adcValVolts (adcVal inp))
              (numberOfAlarmsLeftToTrigger s'), CRITICAL)"
    by (auto simp: check_voltage_def Let_def split: if_splits)
  then show "calls_at CRITICAL (new_events s s') =
        map (\<lambda>h. (h, StatusMsg ALARM (adcNumber cfg) (adcVal inp) (adcValVolts (adcVal inp))
                      (numberOfAlarmsLeftToTrigger s'))) (alarmHandlers cfg)"
    by (simp add: cycle_calls[OF c] alarm_calls_def info_calls_def INFO_def CRITICAL_def)
next
  assume a: "alarmState t = ALARM \<and> monitor_cycle cfg inp2 t = Inr t' \<and> alarmState t' = OK"
  then have c: "monitor_cycle cfg inp2 t = Inr t'" by simp
  from a have req: "snd (check_voltage cfg (adcVal inp2) t) = None"
    by (auto simp: check_voltage_def Let_def)
  show "\<forall>sev. sev \<noteq> INFO \<longrightarrow> calls_at sev (new_events t t') = []"
    by (simp add: cycle_calls[OF c] alarm_calls_def info_calls_def req)
  assume "clock_check inp2 \<le> nextInfoTrigger t"
  then show "calls_at INFO (new_events t t') = []"
    by (simp add: cycle_calls[OF c] alarm_calls_def info_calls_def req)
qed

text \<open>
  With the default arguments (\<open>N = 1\<close>, the e-mail handler before the buzzer): one bad
  reading alarms and both handlers get the one \<open>CRITICAL\<close> message; the good reading
  that follows returns to \<open>OK\<close> and no handler is called.
\<close>

theorem alarm_edge_one_CRITICAL_recovery_silent_witness:
  "\<exists>s s' t'. monitor_init (main default_args) quiet 0 = Inr s \<and>
      monitor_cycle (main default_args) (sample 284 2) s = Inr s' \<and>
      monitor_cycle (main default_args) (sample 455 3) s' = Inr t' \<and>
      alarmState s = OK \<and> alarmState s' = ALARM \<and> alarmState t' = OK \<and>
      calls_at CRITICAL (new_events s s') =
        [(EMailAlarmHandler ''user'' ''pass'' ''dest'', StatusMsg ALARM 1 284 (adcValVolts 284) 0),
         (BuzzerAlarmHandler 27 30, StatusMsg ALARM 1 284 (adcValVolts 284) 0)] \<and>
      calls_at CRITICAL (new_events s' t') = [] \<and>
      calls_at INFO (new_events s' t') = []"
proof -
  let ?cfg = "main default_args"
  have "\<exists>s s' t'. monitor_init ?cfg quiet 0 = Inr s \<and>
      monitor_cycle ?cfg (sample 284 2) s = Inr s' \<and>
      monitor_cycle ?cfg (sample 455 3) s' = Inr t' \<and>
      alarmState s = OK \<and> alarmState s' = ALARM \<and> alarmState t' = OK \<and>
      numberOfAlarmsLeftToTrigger s' = 0 \<and>
      clock_check (sample 455 3) \<le> nextInfoTrigger s'"
    by (simp add: run_defs)
  then obtain s s' t' where i: "monitor_init ?cfg quiet 0 = Inr s"
    and c1: "monitor_cycle ?cfg (sample 284 2) s = Inr s'"
    and c2: "monitor_cycle ?cfg (sample 455 3) s' = Inr t'"
    and st: "alarmState s = OK" "alarmState s' = ALARM" "alarmState t' = OK"
    and z: "numberOfAlarmsLeftToTrigger s' = 0"
    and q: "clock_check (sample 455 3) \<le> nextInfoTrigger s'"
    by blast
  have ne: "CRITICAL \<noteq> INFO" by (simp add: INFO_def CRITICAL_def)
  have v: "adcNumber ?cfg = 1" "adcVal (sample 284 2) = 284"
    "alarmHandlers ?cfg =
       [EMailAlarmHandler ''user'' ''pass'' ''dest'', BuzzerAlarmHandler 27 30]"
    by (simp_all add: main_def default_args_def sample_def)
  from alarm_edge_one_CRITICAL_recovery_silent
         [of s ?cfg "sample 284 2" s' s' "sample 455 3" t'] c1 c2 st q ne
  have "calls_at CRITICAL (new_events s s') =
        map (\<lambda>h. (h, StatusMsg ALARM (adcNumber ?cfg) (adcVal (sample 284 2))
                      (adcValVolts (adcVal (sample 284 2)))
                      (numberOfAlarmsLeftToTrigger s'))) (alarmHandlers ?cfg) \<and>
        calls_at CRITICAL (new_events s' t') = [] \<and> calls_at INFO (new_events s' t') = []"
    by blast
  with i c1 c2 st show ?thesis unfolding v z by auto
qed

text \<open>
  C4. For every trigger count \<open>N \<ge> 1\<close>: after every pass of the loop, started by
  \<open>monitor\<close> with the counter at \<open>N\<close>, the counter is between 0 and \<open>N\<close>, whatever the
  state.
\<close>

theorem counter_stays_in_range:
  "1 \<le> alarmNTriggers cfg \<Longrightarrow> monitor cfg rs now inps = Inr s \<Longrightarrow>
     0 \<le> numberOfAlarmsLeftToTrigger s \<and> numberOfAlarmsLeftToTrigger s \<le> alarmNTriggers cfg"
  using monitor_inv[of cfg rs now inps s] by (simp add: counter_inv_def split: if_splits)

theorem counter_stays_in_range_witness:
  "1 \<le> alarmNTriggers (main (default_args\<lparr>alarm_tri := 3\<rparr>)) \<and>
   (\<exists>s. monitor (main (default_args\<lparr>alarm_tri := 3\<rparr>)) quiet 0
        [sample 284 2, sample 455 3, sample 284 5, sample 284 6, sample 284 7, sample 455 8] =
        Inr s \<and>
      0 \<le> numberOfAlarmsLeftToTrigger s \<and>
      numberOfAlarmsLeftToTrigger s \<le> alarmNTriggers (main (default_args\<lparr>alarm_tri := 3\<rparr>)))"
proof -
  let ?cfg = "main (default_args\<lparr>alarm_tri := 3\<rparr>)"
  let ?inps = "[sample 284 2, sample 455 3, sample 284 5, sample 284 6, sample 284 7, sample 455 8]"
  have n: "1 \<le> alarmNTriggers ?cfg" by (simp add: run_defs)
  have "\<exists>s. monitor ?cfg quiet 0 ?inps = Inr s" by (simp add: run_defs)
  then obtain s where m: "monitor ?cfg quiet 0 ?inps = Inr s" by blast
  from counter_stays_in_range[OF n m] n m show ?thesis by blast
qed

text \<open>
  C10. Lines 152--156 do not assign the counter when they set the state back to \<open>OK\<close>.
  All the same, for every trigger count \<open>N \<ge> 1\<close>, in every state that \<open>monitor\<close> reaches,
  a pass that goes from a state other than \<open>OK\<close> to \<open>OK\<close> ends with the counter at
  exactly \<open>N\<close>: the start state of C1.
\<close>

theorem recovery_enters_OK_fully_armed:
  assumes "1 \<le> alarmNTriggers cfg" and "monitor cfg rs now inps = Inr s"
    and "monitor_cycle cfg inp s = Inr s'" and "alarmState s \<noteq> OK" and "alarmState s' = OK"
  shows "numberOfAlarmsLeftToTrigger s' = alarmNTriggers cfg"
proof -
  from monitor_inv[OF assms(1,2)] assms(4)
  have r: "numberOfAlarmsLeftToTrigger s < alarmNTriggers cfg" by (simp add: counter_inv_def)
  show ?thesis
  proof (cases "adcValVolts (adcVal inp) < alarmMinVoltage cfg")
    case True
    from cycle_bad_reading(2)[OF True assms(3,4)] assms(4,5) show ?thesis by simp
  next
    case False
    from cycle_good_reading(2)[OF False assms(3,4)] assms(4,5) r show ?thesis
      by (simp split: if_splits)
  qed
qed

text \<open>
  With \<open>N = 2\<close>: two bad readings alarm, one good reading leaves the state \<open>ALARM\<close>, and
  the second good reading returns to \<open>OK\<close> with the counter at 2.
\<close>

theorem recovery_enters_OK_fully_armed_witness:
  "1 \<le> alarmNTriggers (main (default_args\<lparr>alarm_tri := 2\<rparr>)) \<and>
   (\<exists>s s'. monitor (main (default_args\<lparr>alarm_tri := 2\<rparr>)) quiet 0
        [sample 284 2, sample 284 3, sample 455 4] = Inr s \<and>
      monitor_cycle (main (default_args\<lparr>alarm_tri := 2\<rparr>)) (sample 455 6) s = Inr s' \<and>
      alarmState s \<noteq> OK \<and> alarmState s' = OK \<and>
      numberOfAlarmsLeftToTrigger s' = alarmNTriggers (main (default_args\<lparr>alarm_tri := 2\<rparr>)))"
proof -
  let ?cfg = "main (default_args\<lparr>alarm_tri := 2\<rparr>)"
  have n: "1 \<le> alarmNTriggers ?cfg" by (simp add: run_defs)
  have "\<exists>s s'. monitor ?cfg quiet 0 [sample 284 2, sample 284 3, sample 455 4] = Inr s \<and>
      monitor_cycle ?cfg (sample 455 6) s = Inr s' \<and> alarmState s \<noteq> OK \<and> alarmState s' = OK"
    by (simp add: run_defs)
  then obtain s s' where m: "monitor ?cfg quiet 0 [sample 284 2, sample 284 3, sample 455 4] = Inr s"
    and c: "monitor_cycle ?cfg (sample 455 6) s = Inr s'"
    and a: "alarmState s \<noteq> OK" "alarmState s' = OK"
    by blast
  from recovery_enters_OK_fully_armed[OF n m c a] n m c a show ?thesis by blast
qed

text \<open>
  C7. A pass that reads a value below the threshold in state \<open>OK\<close> ends with the poll
  period at 1, also when that pass raised the alarm; the pass after it therefore starts by
  sleeping 1, and its reset step of line 129 puts the period back to the steady value
  \<open>readPeriodState\<close>, which it keeps unless that pass again reads a bad value in state
  \<open>OK\<close>. A pass that starts in a state other than \<open>OK\<close> always ends with the steady
  period.
\<close>

theorem fast_retry_after_bad_reading_in_OK:
  "(alarmState s = OK \<and> adcValVolts (adcVal inp) < alarmMinVoltage cfg \<and>
    monitor_cycle cfg inp s = Inr s' \<longrightarrow>
      readPeriod s' = 1 \<and>
      readPeriod (sleep_and_reset cfg s') = readPeriodState cfg \<and>
      (monitor_cycle cfg inp2 s' = Inr s'' \<longrightarrow>
         (\<exists>evs. new_events s' s'' = Slept 1 # evs) \<and>
         readPeriod s'' =
           (if alarmState s' = OK \<and> adcValVolts (adcVal inp2) < alarmMinVoltage cfg then 1
            else readPeriodState cfg))) \<and>
   (alarmState t \<noteq> OK \<and> monitor_cycle cfg inp3 t = Inr t' \<longrightarrow>
      readPeriod t' = readPeriodState cfg)"
proof (intro conjI impI)
  assume a: "alarmState s = OK \<and> adcValVolts (adcVal inp) < alarmMinVoltage cfg \<and>
    monitor_cycle cfg inp s = Inr s'"
  with cycle_readPeriod[of cfg inp s s'] show r: "readPeriod s' = 1" by simp
  show "readPeriod (sleep_and_reset cfg s') = readPeriodState cfg"
    by (simp add: sleep_and_reset_def)
  assume c2: "monitor_cycle cfg inp2 s' = Inr s''"
  from monitor_cycle_Inr(5)[OF c2] r show "\<exists>evs. new_events s' s'' = Slept 1 # evs" by auto
  from cycle_readPeriod[OF c2] show "readPeriod s'' =
           (if alarmState s' = OK \<and> adcValVolts (adcVal inp2) < alarmMinVoltage cfg then 1
            else readPeriodState cfg)" .
next
  assume "alarmState t \<noteq> OK \<and> monitor_cycle cfg inp3 t = Inr t'"
  with cycle_readPeriod[of cfg inp3 t t'] show "readPeriod t' = readPeriodState cfg" by simp
qed

text \<open>
  With the default arguments (\<open>N = 1\<close>, steady period 2): the first bad reading raises
  the alarm and leaves the period at 1; the next pass sleeps 1 and, reading a bad value in
  state \<open>ALARM\<close>, ends with the period back at 2.
\<close>

theorem fast_retry_after_bad_reading_in_OK_witness:
  "\<exists>s s' s''. monitor_init (main default_args) quiet 0 = Inr s \<and>
      monitor_cycle (main default_args) (sample 284 2) s = Inr s' \<and>
      monitor_cycle (main default_args) (sample 284 3) s' = Inr s'' \<and>
      alarmState s = OK \<and> alarmState s' = ALARM \<and>
      readPeriod s' = 1 \<and> (\<exists>evs. new_events s' s'' = Slept 1 # evs) \<and> readPeriod s'' = 2"
proof -
  let ?cfg = "main default_args"
  have "\<exists>s s' s''. monitor_init ?cfg quiet 0 = Inr s \<and>
      monitor_cycle ?cfg (sample 284 2) s = Inr s' \<and>
      monitor_cycle ?cfg (sample 284 3) s' = Inr s'' \<and>
      alarmState s = OK \<and> alarmState s' = ALARM"
    by (simp add: run_defs)
  then obtain s s' s'' where i: "monitor_init ?cfg quiet 0 = Inr s"
    and c1: "monitor_cycle ?cfg (sample 284 2) s = Inr s'"
    and c2: "monitor_cycle ?cfg (sample 284 3) s' = Inr s''"
    and st: "alarmState s = OK" "alarmState s' = ALARM"
    by blast
  have b: "adcValVolts (adcVal (sample 284 2)) < alarmMinVoltage ?cfg"
    and p: "readPeriodState ?cfg = 2"
    by (simp_all add: run_defs)
  from fast_retry_after_bad_reading_in_OK
         [of s "sample 284 2" ?cfg s' "sample 284 3" s'' s' "sample 284 3" s''] st b c1 c2 p
  have "readPeriod s' = 1 \<and> (\<exists>evs. new_events s' s'' = Slept 1 # evs) \<and> readPeriod s'' = 2"
    by simp
  with i c1 c2 st show ?thesis by blast
qed

text \<open>
  C8, as the code has it. For every positive \<open>infoPeriod\<close>: \<open>monitor\<close> starts with the
  deadline at the clock reading of line 124 plus \<open>infoPeriod\<close>. In every pass, whatever
  the alarm state: if the clock reading of line 159 is strictly past the deadline, every
  handler is called once with severity \<open>INFO\<close> and the status message, and the deadline
  becomes the clock reading of line 162 plus \<open>infoPeriod\<close>, which is strictly later than
  the old one when that clock has not run backwards since line 159; otherwise no handler
  is called with severity \<open>INFO\<close> and the deadline stays. Hence two passes that send the
  information alarm have clock readings more than \<open>infoPeriod\<close> apart.
\<close>

theorem heartbeat_fires_past_deadline:
  assumes "0 < infoPeriod cfg"
  shows
   "(monitor_init cfg rs now = Inr s0 \<longrightarrow> nextInfoTrigger s0 = now + of_int (infoPeriod cfg)) \<and>
    (monitor_cycle cfg inp s = Inr s' \<longrightarrow>
       (if clock_check inp > nextInfoTrigger s then
          calls_at INFO (new_events s s') =
            map (\<lambda>h. (h, status_message cfg (adcVal inp) (sleep_and_reset cfg s)
                          (snd (check_voltage cfg (adcVal inp) s)))) (alarmHandlers cfg) \<and>
          nextInfoTrigger s' = clock_set inp + of_int (infoPeriod cfg) \<and>
          (clock_check inp \<le> clock_set inp \<longrightarrow> nextInfoTrigger s < nextInfoTrigger s')
        else calls_at INFO (new_events s s') = [] \<and> nextInfoTrigger s' = nextInfoTrigger s)) \<and>
    (clock_check inp > nextInfoTrigger s \<and> clock_check inp \<le> clock_set inp \<and>
     monitor_cycle cfg inp s = Inr s' \<and>
     list_all (\<lambda>i. clock_check i \<le> clock_set i) mid \<and> monitor_loop cfg mid s' = Inr t \<and>
     clock_check nxt > nextInfoTrigger t \<longrightarrow>
       clock_check nxt > clock_check inp + of_int (infoPeriod cfg))"
proof (intro conjI impI)
  assume "monitor_init cfg rs now = Inr s0"
  then show "nextInfoTrigger s0 = now + of_int (infoPeriod cfg)"
    by (auto simp: monitor_init_def split: sum.splits)
next
  assume c: "monitor_cycle cfg inp s = Inr s'"
  from monitor_cycle_Inr(4)[OF c] assms
  show "if clock_check inp > nextInfoTrigger s then
          calls_at INFO (new_events s s') =
            map (\<lambda>h. (h, status_message cfg (adcVal inp) (sleep_and_reset cfg s)
                          (snd (check_voltage cfg (adcVal inp) s)))) (alarmHandlers cfg) \<and>
          nextInfoTrigger s' = clock_set inp + of_int (infoPeriod cfg) \<and>
          (clock_check inp \<le> clock_set inp \<longrightarrow> nextInfoTrigger s < nextInfoTrigger s')
        else calls_at INFO (new_events s s') = [] \<and> nextInfoTrigger s' = nextInfoTrigger s"
    by (simp add: cycle_calls[OF c] alarm_calls_INFO info_calls_def)
next
  assume h: "clock_check inp > nextInfoTrigger s \<and> clock_check inp \<le> clock_set inp \<and>
     monitor_cycle cfg inp s = Inr s' \<and>
     list_all (\<lambda>i. clock_check i \<le> clock_set i) mid \<and> monitor_loop cfg mid s' = Inr t \<and>
     clock_check nxt > nextInfoTrigger t"
  then have c: "monitor_cycle cfg inp s = Inr s'" and l: "monitor_loop cfg mid s' = Inr t"
    and m: "list_all (\<lambda>i. clock_check i \<le> clock_set i) mid" by simp_all
  from monitor_cycle_Inr(4)[OF c] h
  have "nextInfoTrigger s' = clock_set inp + of_int (infoPeriod cfg)" by simp
  moreover from assms have "0 \<le> infoPeriod cfg" by simp
  from loop_deadline_mono[OF this m l] have "nextInfoTrigger s' \<le> nextInfoTrigger t" .
  ultimately show "clock_check nxt > clock_check inp + of_int (infoPeriod cfg)"
    using h by simp
qed

text \<open>
  With a pass every 5 time units and \<open>infoPeriod = 10\<close>, started at clock 0: the deadline
  starts at 10; the passes at clock 5 and 10 send nothing; the pass at clock 15 sends the
  information alarm to both handlers and moves the deadline to 25; the passes at clock 20
  and 25 send nothing; the pass at clock 30, more than 10 after 15, sends it again.
\<close>

theorem heartbeat_fires_past_deadline_witness:
  "0 < infoPeriod (main (default_args\<lparr>period := 5, info_period := 10\<rparr>)) \<and>
   (\<exists>s0 s s' t. monitor_init (main (default_args\<lparr>period := 5, info_period := 10\<rparr>)) quiet 0 = Inr s0 \<and>
      monitor_loop (main (default_args\<lparr>period := 5, info_period := 10\<rparr>))
        [sample 455 5, sample 455 10] s0 = Inr s \<and>
      monitor_cycle (main (default_args\<lparr>period := 5, info_period := 10\<rparr>)) (sample 455 15) s = Inr s' \<and>
      monitor_loop (main (default_args\<lparr>period := 5, info_period := 10\<rparr>))
        [sample 455 20, sample 455 25] s' = Inr t \<and>
      nextInfoTrigger s0 = 10 \<and> nextInfoTrigger s = 10 \<and> nextInfoTrigger s' = 25 \<and>
      nextInfoTrigger t = 25 \<and>
      map fst (calls_at INFO (new_events s s')) =
        [EMailAlarmHandler ''user'' ''pass'' ''dest'', BuzzerAlarmHandler 27 30] \<and>
      clock_check (sample 455 30) > clock_check (sample 455 15) + 10)"
proof -
  let ?cfg = "main (default_args\<lparr>period := 5, info_period := 10\<rparr>)"
  have n: "0 < infoPeriod ?cfg" and p: "infoPeriod ?cfg = 10"
    and hs: "alarmHandlers ?cfg =
       [EMailAlarmHandler ''user'' ''pass'' ''dest'', BuzzerAlarmHandler 27 30]"
    by (simp_all add: run_defs)
  have "\<exists>s0 s s' t. monitor_init ?cfg quiet 0 = Inr s0 \<and>
      monitor_loop ?cfg [sample 455 5, sample 455 10] s0 = Inr s \<and>
      monitor_cycle ?cfg (sample 455 15) s = Inr s' \<and>
      monitor_loop ?cfg [sample 455 20, sample 455 25] s' = Inr t \<and>
      nextInfoTrigger s = 10 \<and> nextInfoTrigger t = 25"
    by (simp add: run_defs)
  then obtain s0 s s' t where i: "monitor_init ?cfg quiet 0 = Inr s0"
    and l1: "monitor_loop ?cfg [sample 455 5, sample 455 10] s0 = Inr s"
    and c: "monitor_cycle ?cfg (sample 455 15) s = Inr s'"
    and l2: "monitor_loop ?cfg [sample 455 20, sample 455 25] s' = Inr t"
    and d: "nextInfoTrigger s = 10" "nextInfoTrigger t = 25"
    by blast
  have k: "clock_check (sample 455 15) = 15" "clock_set (sample 455 15) = 15"
    "clock_check (sample 455 30) = 30"
    "list_all (\<lambda>i. clock_check i \<le> clock_set i) [sample 455 20, sample 455 25]"
    by (simp_all add: sample_def)
  from heartbeat_fires_past_deadline
         [OF n, where rs = quiet and now = 0 and ?s0.0 = s0 and inp = "sample 455 15" and s = s
            and s' = s' and mid = "[sample 455 20, sample 455 25]" and t = t
            and nxt = "sample 455 30"]
    i c l2 d k p
  have "nextInfoTrigger s0 = 10 \<and> nextInfoTrigger s' = 25 \<and>
        calls_at INFO (new_events s s') =
            map (\<lambda>h. (h, status_message ?cfg (adcVal (sample 455 15)) (sleep_and_reset ?cfg s)
                          (snd (check_voltage ?cfg (adcVal (sample 455 15)) s)))) (alarmHandlers ?cfg) \<and>
        clock_check (sample 455 30) > clock_check (sample 455 15) + 10"
    by simp
  then have "nextInfoTrigger s0 = 10 \<and> nextInfoTrigger s' = 25 \<and>
        map fst (calls_at INFO (new_events s s')) =
          [EMailAlarmHandler ''user'' ''pass'' ''dest'', BuzzerAlarmHandler 27 30] \<and>
        clock_check (sample 455 30) > clock_check (sample 455 15) + 10"
    by (simp add: hs comp_def)
  with n i l1 c l2 d show ?thesis
    by (intro conjI exI[of _ s0] exI[of _ s] exI[of _ s'] exI[of _ t]) simp_all
qed

text \<open>
  The claim C8 as stated says that an \<open>INFO\<close> notification goes out at least once per
  \<open>infoPeriod\<close>. In the run above \<open>infoPeriod\<close> is 10: after the information alarm of
  the pass at clock 15 the passes at clock 20 and 25 call no handler, so the ten time units
  after 15 go by without any \<open>INFO\<close> notification; likewise the ten after the start-up
  notification at clock 0.
\<close>

theorem heartbeat_at_least_once_per_interval_counterexample:
  "monitor (main (default_args\<lparr>period := 5, info_period := 10\<rparr>)) quiet 0
     [sample 455 5, sample 455 10, sample 455 15, sample 455 20, sample 455 25] =
   Inr \<lparr>numberOfAlarmsLeftToTrigger = 1, alarmState = OK, readPeriod = 5, nextInfoTrigger = 25,
        trace =
          [Triggered (EMailAlarmHandler ''user'' ''pass'' ''dest'')
             (StartupMsg 1 5 (7 / 10) 1) INFO EMailSent,
           Triggered (BuzzerAlarmHandler 27 30) (StartupMsg 1 5 (7 / 10) 1) INFO BuzzerIdle,
           Slept 5, Slept 5, Slept 5,
           Triggered (EMailAlarmHandler ''user'' ''pass'' ''dest'')
             (StatusMsg OK 1 455 (adcValVolts 455) 1) INFO EMailSent,
           Triggered (BuzzerAlarmHandler 27 30)
             (StatusMsg OK 1 455 (adcValVolts 455) 1) INFO BuzzerIdle,
           Slept 5, Slept 5]\<rparr>"
  by (simp add: run_defs)

text \<open>
  Lines 180--182 compute a trigger count that is never below 1.
\<close>

lemma main_alarmNTriggers_clamped: "1 \<le> main_alarmNTriggers a"
  by (simp add: main_alarmNTriggers_def)

text \<open>
  C5 fails on the code. For \<open>--alarm_tri 0\<close> the local of lines 180--182 is 1, but line
  189 hands \<open>args.alarm_tri\<close>, which is 0, to \<open>monitor\<close>: nothing is rejected, the loop
  is entered with the trigger count 0, and its first bad reading raises the alarm with the
  counter at \<open>-1\<close>.
\<close>

theorem trigger_count_zero_reaches_monitor:
  "main_alarmNTriggers (default_args\<lparr>alarm_tri := 0\<rparr>) = 1 \<and>
   alarmNTriggers (main (default_args\<lparr>alarm_tri := 0\<rparr>)) = 0 \<and>
   monitor (main (default_args\<lparr>alarm_tri := 0\<rparr>)) quiet 0 [sample 284 2] =
   Inr \<lparr>numberOfAlarmsLeftToTrigger = - 1, alarmState = ALARM, readPeriod = 1,
        nextInfoTrigger = 43200,
        trace =
          [Triggered (EMailAlarmHandler ''user'' ''pass'' ''dest'')
             (StartupMsg 1 2 (7 / 10) 0) INFO EMailSent,
           Triggered (BuzzerAlarmHandler 27 30) (StartupMsg 1 2 (7 / 10) 0) INFO BuzzerIdle,
           Slept 2,
           Triggered (EMailAlarmHandler ''user'' ''pass'' ''dest'')
             (StatusMsg ALARM 1 284 (adcValVolts 284) (- 1)) CRITICAL EMailSent,
           Triggered (BuzzerAlarmHandler 27 30)
             (StatusMsg ALARM 1 284 (adcValVolts 284) (- 1)) CRITICAL SirenSounded]\<rparr>"
  by (simp add: run_defs main_alarmNTriggers_def)

text \<open>
  C6 fails on the code. With the default arguments, the first bad reading raises the
  alarm; the e-mail handler is called and returns; a \<open>wiringpi\<close> call of the buzzer
  raises. \<open>BuzzerAlarmHandler.trigger\<close> has no \<open>try\<close> block and neither has \<open>monitor\<close>:
  the exception ends \<open>monitor\<close>, and the second pass, whose input is given, never runs.
\<close>

theorem buzzer_failure_ends_monitor:
  "monitor (main default_args) quiet 0
     [\<lparr>adcVal = 284, raises = buzzer_broken, clock_check = 2, clock_set = 2\<rparr>, sample 455 4] =
   Inl (WiringPiError,
        [Triggered (EMailAlarmHandler ''user'' ''pass'' ''dest'')
           (StartupMsg 1 2 (7 / 10) 1) INFO EMailSent,
         Triggered (BuzzerAlarmHandler 27 30) (StartupMsg 1 2 (7 / 10) 1) INFO BuzzerIdle,
         Slept 2,
         Triggered (EMailAlarmHandler ''user'' ''pass'' ''dest'')
           (StatusMsg ALARM 1 284 (adcValVolts 284) 0) CRITICAL EMailSent])"
  by (simp add: run_defs)

text \<open>
  The e-mail handler, by contrast, keeps every failure to itself: whatever \<open>smtplib\<close>
  does, the handlers after it in the list are still called.
\<close>

lemma email_failure_does_not_stop_dispatch:
  "dispatch rs (EMailAlarmHandler u pw dst # hs) msg severity tr =
     dispatch rs hs msg severity
       (tr @ [Triggered (EMailAlarmHandler u pw dst) msg severity
                (if rs (EMailAlarmHandler u pw dst) severity then EMailFailureLogged
                 else EMailSent)])"
  by simp




end
